theory Spec2Isabelle
  imports Main
begin

section \<open>JSON values and the jansson accessors\<close>

text \<open>
  \<open>json_funcs.hpp\<close> reads JSON trees through the jansson library.  A tree is a value of
  \<open>json\<close>; a \<open>json_t*\<close> is a \<open>json option\<close>, with \<open>None\<close> for \<open>nullptr\<close>.  A JSON
  string carries the NUL-terminated character data that \<open>json_string_value\<close> hands out, an
  object is the list of its members (jansson keeps one value per key, \<open>map_of\<close> reads the
  first), and a number carries a payload this file never inspects (an integer, or the
  significand and exponent of a real).
\<close>

datatype json =
    JNull
  | JTrue
  | JFalse
  | JInteger int
  | JReal int int
  | JString string
  | JArray "json list"
  | JObject "(string \<times> json) list"

text \<open>The type tests are jansson's macros: each is false on \<open>nullptr\<close>.\<close>

fun json_is_object :: "json option \<Rightarrow> bool" where
  "json_is_object (Some (JObject members)) = True"
| "json_is_object other = False"

fun json_is_array :: "json option \<Rightarrow> bool" where
  "json_is_array (Some (JArray elements)) = True"
| "json_is_array other = False"

fun json_is_string :: "json option \<Rightarrow> bool" where
  "json_is_string (Some (JString text)) = True"
| "json_is_string other = False"

text \<open>\<open>json_object_get\<close> returns \<open>nullptr\<close> when the value is no object or has no such key.\<close>

fun json_object_get :: "json option \<Rightarrow> string \<Rightarrow> json option" where
  "json_object_get (Some (JObject members)) key = map_of members key"
| "json_object_get other key = None"

text \<open>\<open>json_array_get\<close> returns \<open>nullptr\<close> when the value is no array or the index is out of range.\<close>

fun json_array_get :: "json option \<Rightarrow> nat \<Rightarrow> json option" where
  "json_array_get (Some (JArray elements)) index =
     (if index < length elements then Some (elements ! index) else None)"
| "json_array_get other index = None"

text \<open>\<open>json_string_value\<close> returns \<open>nullptr\<close> when the value is no string.\<close>

fun json_string_value :: "json option \<Rightarrow> string option" where
  "json_string_value (Some (JString text)) = Some text"
| "json_string_value other = None"


section \<open>The pieces of the C++ standard library the file uses\<close>

text \<open>
  \<open>std::string\<close> is a \<open>string\<close> (a list of bytes).  Positions are \<open>size_t\<close>; they are
  modelled as \<open>nat\<close> and \<open>std::string::npos\<close> as \<open>None\<close>: the positions the code computes
  exceed the length of a string held in memory by one at most, so none wraps around.
\<close>

text \<open>\<open>s.c_str()\<close> read as a C string: the bytes before the first NUL.\<close>

definition c_str :: "string \<Rightarrow> string" where
  "c_str s = takeWhile (\<lambda>c. c \<noteq> CHR 0x00) s"

text \<open>\<open>s.find(needle)\<close>: the lowest position at which \<open>needle\<close> starts.\<close>

fun find_first :: "string \<Rightarrow> string \<Rightarrow> nat option" where
  "find_first [] needle = (if needle = [] then Some 0 else None)"
| "find_first (c # cs) needle =
     (if take (length needle) (c # cs) = needle then Some 0
      else map_option Suc (find_first cs needle))"

text \<open>\<open>s.find(needle, pos)\<close>: the lowest position from \<open>pos\<close> on; \<open>npos\<close> when \<open>pos\<close> is
  beyond the end.\<close>

definition str_find :: "string \<Rightarrow> string \<Rightarrow> nat \<Rightarrow> nat option" where
  "str_find s needle pos =
     (if length s < pos then None
      else map_option (\<lambda>i. pos + i) (find_first (drop pos s) needle))"

text \<open>What a search looks for: \<open>needle\<close> lies in \<open>s\<close> at position \<open>i\<close>.\<close>

definition occurs_at :: "string \<Rightarrow> string \<Rightarrow> nat \<Rightarrow> bool" where
  "occurs_at s needle i = (i \<le> length s \<and> take (length needle) (drop i s) = needle)"

text \<open>\<open>s.substr(pos, len)\<close>, called here with \<open>pos\<close> inside the string only.\<close>

definition substr :: "string \<Rightarrow> nat \<Rightarrow> nat \<Rightarrow> string" where
  "substr s pos len = take len (drop pos s)"

text \<open>\<open>s.replace(pos, len, text)\<close>, called here with \<open>pos\<close> inside the string only.\<close>

definition str_replace :: "string \<Rightarrow> nat \<Rightarrow> nat \<Rightarrow> string \<Rightarrow> string" where
  "str_replace s pos len text = take pos s @ text @ drop (pos + len) s"

text \<open>
  \<open>std::stoul(str)\<close> is \<open>strtoul(str.c_str(), &end, 10)\<close>: white space is skipped, one sign
  is accepted, the longest run of decimal digits is converted and what follows is ignored.
  It throws \<open>std::invalid_argument\<close> when there is no digit and \<open>std::out_of_range\<close> when
  the digits exceed \<open>ULONG_MAX\<close>; a minus sign negates the result in \<open>unsigned long\<close>
  (64 bits on the AArch64 target of the overlay).
\<close>

datatype exception = Invalid_argument | Out_of_range

definition isspace :: "char \<Rightarrow> bool" where
  "isspace c = (c \<in> set [CHR '' '', CHR 0x09, CHR 0x0A, CHR 0x0B, CHR 0x0C, CHR 0x0D])"

definition isdigit :: "char \<Rightarrow> bool" where
  "isdigit c = (48 \<le> (of_char c :: nat) \<and> (of_char c :: nat) \<le> 57)"

definition digit_value :: "char \<Rightarrow> nat" where
  "digit_value c = of_char c - 48"

definition decimal :: "string \<Rightarrow> nat" where
  "decimal ds = foldl (\<lambda>n c. 10 * n + digit_value c) 0 ds"

definition ULONG_MAX :: nat where
  "ULONG_MAX = 18446744073709551615"

definition stoul :: "string \<Rightarrow> exception + nat" where
  "stoul str =
     (let text = dropWhile isspace (c_str str);
          negative = (take 1 text = ''-'');
          unsigned = (if take 1 text = ''-'' \<or> take 1 text = ''+'' then drop 1 text else text);
          digits = takeWhile isdigit unsigned
      in if digits = [] then Inl Invalid_argument
         else if ULONG_MAX < decimal digits then Inl Out_of_range
         else if negative then Inr ((ULONG_MAX + 1 - decimal digits) mod (ULONG_MAX + 1))
         else Inr (decimal digits))"


section \<open>replaceJsonPlaceholder\<close>

text \<open>
  The document is obtained first (lines 127 to 138).  \<open>json_loads\<close> and \<open>json_load_file\<close>
  belong to jansson and read text and files; they are parameters here, \<open>None\<close> standing for
  the \<open>nullptr\<close> of a failed parse or load; both are handed \<open>c_str()\<close> of the source.
  \<open>stringToJson\<close> returns what \<open>json_loads\<close> returns (it logs a failure and returns
  \<open>nullptr\<close>).
\<close>

definition stringToJson :: "(string \<Rightarrow> json option) \<Rightarrow> string \<Rightarrow> json option" where
  "stringToJson json_loads input =
     (case json_loads (c_str input) of None \<Rightarrow> None | Some jsonObj \<Rightarrow> Some jsonObj)"

definition loadJsonDict ::
  "(string \<Rightarrow> json option) \<Rightarrow> (string \<Rightarrow> json option) \<Rightarrow> string \<Rightarrow> string \<Rightarrow> json option" where
  "loadJsonDict json_loads json_load_file commandName jsonPathOrString =
     (if commandName = ''json'' \<or> commandName = ''json_source''
        then stringToJson json_loads jsonPathOrString
      else if commandName = ''json_file'' \<or> commandName = ''json_file_source''
        then json_load_file (c_str jsonPathOrString)
      else None)"

text \<open>The opener \<open>"{" + commandName + "("\<close> (line 141).\<close>

definition searchString :: "string \<Rightarrow> string" where
  "searchString commandName = ''{'' @ commandName @ ''(''"

text \<open>
  The inner loop (lines 158 to 165) collects the keys and indexes of one placeholder.  The
  comma is searched in the whole string from \<open>nextPos\<close> on.
\<close>

function extractKeys :: "string \<Rightarrow> nat \<Rightarrow> nat \<Rightarrow> string list" where
  "extractKeys replacement nextPos endPos =
     (if nextPos < endPos then
        (let len = (case str_find replacement '','' nextPos of
                      Some commaPos \<Rightarrow> commaPos - nextPos
                    | None \<Rightarrow> endPos - nextPos)
         in substr replacement nextPos len # extractKeys replacement (nextPos + (len + 1)) endPos)
      else [])"
  by pat_completeness auto
termination
  by (relation "measure (\<lambda>(replacement, nextPos, endPos). endPos - nextPos)") auto

declare extractKeys.simps [simp del]

text \<open>
  The descent (lines 167 to 179) returns \<open>validValue\<close> and \<open>value\<close> as the loop leaves
  them, or the exception \<open>std::stoul\<close> throws.
\<close>

fun descend :: "json option \<Rightarrow> string list \<Rightarrow> exception + (bool \<times> json option)" where
  "descend value [] = Inr (True, value)"
| "descend value (keyIndex # keysAndIndexes) =
     (if json_is_object value then
        descend (json_object_get value (c_str keyIndex)) keysAndIndexes
      else if json_is_array value then
        (case stoul keyIndex of
           Inl thrown \<Rightarrow> Inl thrown
         | Inr index \<Rightarrow> descend (json_array_get value index) keysAndIndexes)
      else Inr (False, value))"

text \<open>The guarded replacement of lines 181 to 184.\<close>

definition substituteValue :: "string \<Rightarrow> nat \<Rightarrow> nat \<Rightarrow> bool \<Rightarrow> json option \<Rightarrow> string" where
  "substituteValue replacement startPos endPos validValue value =
     (if validValue \<and> value \<noteq> None \<and> json_is_string value then
        (case json_string_value value of
           Some text \<Rightarrow> str_replace replacement startPos (endPos - startPos + 2) text
         | None \<Rightarrow> replacement)
      else replacement)"

text \<open>
  The outer loop (lines 148 to 188) on the state \<open>replacement\<close>, \<open>startPos\<close>.  It may run
  forever, so it is a partial function: \<open>None\<close> is a run that does not return,
  \<open>Some (Inl e)\<close> one that leaves by the exception \<open>e\<close>, \<open>Some (Inr s)\<close> one that returns.
  The copy \<open>placeholder\<close> of line 155 is never read and is left out.
\<close>

partial_function (option) scanLoop ::
  "string \<Rightarrow> nat option \<Rightarrow> string \<Rightarrow> json \<Rightarrow> (exception + string) option" where
  "scanLoop replacement startPos commandName jsonDict =
     (case startPos of
        None \<Rightarrow> Some (Inr replacement)
      | Some start \<Rightarrow>
         (case str_find replacement '')}'' start of
            None \<Rightarrow> Some (Inr replacement)
          | Some endPos \<Rightarrow>
             (case descend (Some jsonDict)
                     (extractKeys replacement (start + length (searchString commandName)) endPos) of
                Inl thrown \<Rightarrow> Some (Inl thrown)
              | Inr found \<Rightarrow>
                 scanLoop
                   (substituteValue replacement start endPos (fst found) (snd found))
                   (str_find (substituteValue replacement start endPos (fst found) (snd found))
                      (searchString commandName) endPos)
                   commandName jsonDict)))"

text \<open>
  Lines 136 to 195: without a document the argument is returned; with one the scan starts at
  the first opener.
\<close>

definition scanPlaceholders :: "string \<Rightarrow> string \<Rightarrow> json option \<Rightarrow> (exception + string) option" where
  "scanPlaceholders arg commandName jsonDict =
     (case jsonDict of
        None \<Rightarrow> Some (Inr arg)
      | Some document \<Rightarrow>
          scanLoop arg (str_find arg (searchString commandName) 0) commandName document)"

definition replaceJsonPlaceholder ::
  "(string \<Rightarrow> json option) \<Rightarrow> (string \<Rightarrow> json option) \<Rightarrow> string \<Rightarrow> string \<Rightarrow> string
     \<Rightarrow> (exception + string) option" where
  "replaceJsonPlaceholder json_loads json_load_file arg commandName jsonPathOrString =
     scanPlaceholders arg commandName
       (loadJsonDict json_loads json_load_file commandName jsonPathOrString)"


section \<open>getStringFromJson\<close>

text \<open>The result is a \<open>const char*\<close>: \<open>None\<close> would be a null pointer.\<close>

definition getStringFromJson :: "json option \<Rightarrow> string \<Rightarrow> string option" where
  "getStringFromJson root key =
     (let value = json_object_get root key
      in if value \<noteq> None \<and> json_is_string value then json_string_value value
         else Some [])"


section \<open>Documents of the examples\<close>

text \<open>
  A stand-in for \<open>json_loads\<close> and \<open>json_load_file\<close> in the examples: the text or
  file it is given holds \<open>document\<close>.
\<close>

definition holds_document :: "json \<Rightarrow> string \<Rightarrow> json option" where
  "holds_document document source = Some document"

text \<open>A parse or load that fails.\<close>

definition no_document :: "string \<Rightarrow> json option" where
  "no_document source = None"

text \<open>\<open>{"a":"x"}\<close>, \<open>{"a":[10,20,30]}\<close>, \<open>{"a":["10","20","30"]}\<close>,
  \<open>{"a":5,"a)}":"s"}\<close>, \<open>{"0":"zero","a":5}\<close>.\<close>

definition doc_a_x :: json where
  "doc_a_x = JObject [(''a'', JString ''x'')]"

definition doc_a_numbers :: json where
  "doc_a_numbers = JObject [(''a'', JArray [JInteger 10, JInteger 20, JInteger 30])]"

definition doc_a_strings :: json where
  "doc_a_strings = JObject [(''a'', JArray [JString ''10'', JString ''20'', JString ''30''])]"

definition doc_odd_key :: json where
  "doc_odd_key = JObject [(''a'', JInteger 5), (''a)}'', JString ''s'')]"

definition doc_numeric_key :: json where
  "doc_numeric_key = JObject [(''0'', JString ''zero''), (''a'', JInteger 5)]"

text \<open>\<open>{"a":"0123456789{json(b)}","b":"B"}\<close>: a value that holds a placeholder.\<close>

definition doc_nested :: json where
  "doc_nested = JObject [(''a'', JString ''0123456789{json(b)}''), (''b'', JString ''B'')]"

text \<open>\<open>{"a":"1234567{json(a)}"}\<close>: a value that holds its own placeholder.\<close>

definition doc_loop :: json where
  "doc_loop = JObject [(''a'', JString ''1234567{json(a)}'')]"


section \<open>Searching: what \<open>find\<close> returns\<close>

lemma find_first_Some:
  "find_first s needle = Some i \<Longrightarrow> occurs_at s needle i \<and> (\<forall>j<i. \<not> occurs_at s needle j)"
proof (induction s arbitrary: i)
  case Nil
  then show ?case by (simp add: occurs_at_def split: if_splits)
next
  case (Cons c cs)
  show ?case
  proof (cases "take (length needle) (c # cs) = needle")
    case True
    with Cons.prems show ?thesis by (simp add: occurs_at_def)
  next
    case False
    with Cons.prems obtain k where k: "find_first cs needle = Some k" and i: "i = Suc k"
      by auto
    from Cons.IH [OF k] have occ: "occurs_at cs needle k" and least: "\<forall>j<k. \<not> occurs_at cs needle j"
      by simp_all
    have "occurs_at (c # cs) needle (Suc k)"
      using occ by (simp add: occurs_at_def)
    moreover have "\<not> occurs_at (c # cs) needle j" if "j < Suc k" for j
    proof (cases j)
      case 0
      with False show ?thesis by (simp add: occurs_at_def)
    next
      case (Suc m)
      with that least show ?thesis by (simp add: occurs_at_def)
    qed
    ultimately show ?thesis using i by simp
  qed
qed

lemma find_first_None:
  "find_first s needle = None \<Longrightarrow> \<not> occurs_at s needle j"
proof (induction s arbitrary: j)
  case Nil
  then show ?case by (simp add: occurs_at_def split: if_splits)
next
  case (Cons c cs)
  from Cons.prems have here: "take (length needle) (c # cs) \<noteq> needle"
    and rest: "find_first cs needle = None"
    by (simp_all split: if_splits)
  show ?case
  proof (cases j)
    case 0
    with here show ?thesis by (simp add: occurs_at_def)
  next
    case (Suc m)
    with Cons.IH [OF rest, of m] show ?thesis by (simp add: occurs_at_def)
  qed
qed

lemma occurs_at_drop:
  "pos \<le> length s \<Longrightarrow> occurs_at (drop pos s) needle i = occurs_at s needle (pos + i)"
  by (auto simp: occurs_at_def add.commute)

lemma str_find_Some:
  assumes "str_find s needle pos = Some i"
  shows "pos \<le> i" and "occurs_at s needle i" and "\<And>j. pos \<le> j \<Longrightarrow> j < i \<Longrightarrow> \<not> occurs_at s needle j"
proof -
  from assms have len: "pos \<le> length s"
    by (simp add: str_find_def split: if_splits)
  from assms len obtain k where k: "find_first (drop pos s) needle = Some k" and i: "i = pos + k"
    by (auto simp: str_find_def)
  from find_first_Some [OF k] have occ: "occurs_at (drop pos s) needle k"
    and least: "\<forall>j<k. \<not> occurs_at (drop pos s) needle j" by simp_all
  show "pos \<le> i" using i by simp
  show "occurs_at s needle i" using occ len i by (simp add: occurs_at_drop)
  show "\<not> occurs_at s needle j" if "pos \<le> j" "j < i" for j
  proof -
    from that i have "j - pos < k" by simp
    with least have "\<not> occurs_at (drop pos s) needle (j - pos)" by simp
    with len that show ?thesis by (simp add: occurs_at_drop)
  qed
qed

lemma str_find_None:
  assumes "str_find s needle pos = None" and "pos \<le> j"
  shows "\<not> occurs_at s needle j"
proof (cases "length s < pos")
  case True
  with assms show ?thesis by (simp add: occurs_at_def)
next
  case False
  with assms have "find_first (drop pos s) needle = None"
    by (simp add: str_find_def)
  from find_first_None [OF this, of "j - pos"] False assms show ?thesis
    by (simp add: occurs_at_drop)
qed

lemma str_find_None_iff:
  "str_find s needle pos = None \<longleftrightarrow> (\<forall>j\<ge>pos. \<not> occurs_at s needle j)"
proof
  assume "str_find s needle pos = None"
  then show "\<forall>j\<ge>pos. \<not> occurs_at s needle j" by (blast dest: str_find_None)
next
  assume none: "\<forall>j\<ge>pos. \<not> occurs_at s needle j"
  show "str_find s needle pos = None"
  proof (cases "str_find s needle pos")
    case None
    then show ?thesis .
  next
    case (Some i)
    from str_find_Some(1,2) [OF Some] none show ?thesis by blast
  qed
qed


section \<open>Unfolding sets for the examples\<close>

lemmas string_eval = str_find_def searchString_def occurs_at_def substr_def str_replace_def c_str_def

lemmas stoul_eval = stoul_def isspace_def isdigit_def digit_value_def decimal_def ULONG_MAX_def

lemmas provider_eval = loadJsonDict_def stringToJson_def holds_document_def no_document_def

lemmas doc_eval = doc_a_x_def doc_a_numbers_def doc_a_strings_def doc_odd_key_def doc_numeric_key_def
  doc_nested_def doc_loop_def

lemmas scan_eval = replaceJsonPlaceholder_def scanPlaceholders_def scanLoop.simps substituteValue_def
  extractKeys.simps


section \<open>The closer of a recognised tag lies behind the opener\<close>

lemma recognised_tag_no_paren:
  "commandName \<in> set [''json'', ''json_source'', ''json_file'', ''json_file_source'']
   \<Longrightarrow> CHR '')'' \<notin> set commandName"
  by auto

lemma loadJsonDict_Some_tag:
  "loadJsonDict json_loads json_load_file commandName jsonPathOrString = Some jsonDict
   \<Longrightarrow> commandName \<in> set [''json'', ''json_source'', ''json_file'', ''json_file_source'']"
  by (auto simp: loadJsonDict_def split: if_splits)

lemma occurs_at_nth:
  "occurs_at s needle i \<Longrightarrow> k < length needle \<Longrightarrow> s ! (i + k) = needle ! k \<and> i + k < length s"
proof -
  assume occ: "occurs_at s needle i" and k: "k < length needle"
  from occ have eq: "take (length needle) (drop i s) = needle" and le: "i \<le> length s"
    by (simp_all add: occurs_at_def)
  from eq have "length (take (length needle) (drop i s)) = length needle" by simp
  then have len: "length needle \<le> length s - i" by simp
  have "needle ! k = take (length needle) (drop i s) ! k" using eq by simp
  also have "\<dots> = s ! (i + k)" using k len by simp
  finally show ?thesis using k len le by simp
qed

lemma closer_not_in_opener:
  assumes paren: "CHR '')'' \<notin> set commandName"
    and opener: "occurs_at replacement (searchString commandName) start"
    and closer: "occurs_at replacement '')}'' endPos"
    and ge: "start \<le> endPos"
  shows "start + length (searchString commandName) \<le> endPos"
proof (rule ccontr)
  assume "\<not> start + length (searchString commandName) \<le> endPos"
  with ge have k: "endPos - start < length (searchString commandName)" by simp
  from occurs_at_nth [OF opener k] ge
  have "replacement ! endPos = searchString commandName ! (endPos - start)" by simp
  moreover from occurs_at_nth [OF closer, of 0] have "replacement ! endPos = CHR '')''" by simp
  ultimately have "CHR '')'' \<in> set (searchString commandName)"
    using k by (metis nth_mem)
  with paren show False by (simp add: searchString_def)
qed

lemma unterminated_stops:
  assumes paren: "CHR '')'' \<notin> set commandName"
    and opener: "occurs_at replacement (searchString commandName) start"
    and none: "str_find replacement '')}'' (start + length (searchString commandName)) = None"
  shows "scanLoop replacement (Some start) commandName jsonDict = Some (Inr replacement)"
proof (cases "str_find replacement '')}'' start")
  case None
  then show ?thesis by (subst scanLoop.simps) simp
next
  case (Some endPos)
  from str_find_Some(1,2) [OF Some] have "start \<le> endPos" "occurs_at replacement '')}'' endPos" .
  with closer_not_in_opener [OF paren opener] str_find_None [OF none]
  show ?thesis by blast
qed

lemma no_opener_unchanged:
  assumes "\<forall>i. \<not> occurs_at arg (searchString commandName) i"
  shows "scanPlaceholders arg commandName jsonDict = Some (Inr arg)"
proof -
  from assms have "str_find arg (searchString commandName) 0 = None"
    by (simp add: str_find_None_iff)
  then show ?thesis
    by (cases jsonDict) (simp_all add: scanPlaceholders_def scanLoop.simps)
qed


section \<open>An unterminated placeholder ends the scan\<close>

text \<open>
  Claim C6.  The scan runs only with a document, that is under one of the four recognised
  tags.  When it stands at an opener (\<open>startPos\<close> is the position of an occurrence of
  \<open>{command(\<close> in the string as rewritten so far) and no closer \<open>)}\<close> occurs at or after
  the end of that opener, the loop is left at once and the function returns the string as
  it stands: what was substituted before is kept, and everything from the opener on,
  later openers included, is returned as it is.
\<close>

theorem unterminated_placeholder_stops_scan:
  assumes available: "loadJsonDict json_loads json_load_file commandName jsonPathOrString = Some jsonDict"
    and opener: "occurs_at replacement (searchString commandName) start"
    and unterminated: "\<forall>endPos \<ge> start + length (searchString commandName). \<not> occurs_at replacement '')}'' endPos"
  shows "scanLoop replacement (Some start) commandName jsonDict = Some (Inr replacement)"
proof -
  from loadJsonDict_Some_tag [OF available] have paren: "CHR '')'' \<notin> set commandName"
    by (rule recognised_tag_no_paren)
  from unterminated
  have "str_find replacement '')}'' (start + length (searchString commandName)) = None"
    by (simp add: str_find_None_iff)
  with paren opener show ?thesis by (rule unterminated_stops)
qed

theorem unterminated_placeholder_stops_scan_witness:
  "loadJsonDict (holds_document doc_a_x) (holds_document doc_a_x) ''json'' [] = Some doc_a_x
   \<and> occurs_at ''x-{json(a,{json(b'' (searchString ''json'') 2
   \<and> str_find ''x-{json(a,{json(b'' '')}'' (2 + length (searchString ''json'')) = None
   \<and> scanLoop ''x-{json(a,{json(b'' (Some 2) ''json'' doc_a_x = Some (Inr ''x-{json(a,{json(b'')"
proof -
  have available: "loadJsonDict (holds_document doc_a_x) (holds_document doc_a_x) ''json'' [] = Some doc_a_x"
    by (simp add: provider_eval)
  have opener: "occurs_at ''x-{json(a,{json(b'' (searchString ''json'') 2"
    by (simp add: string_eval)
  have no_closer: "str_find ''x-{json(a,{json(b'' '')}'' (2 + length (searchString ''json'')) = None"
    by (simp add: string_eval)
  then have unterminated:
    "\<forall>endPos \<ge> 2 + length (searchString ''json''). \<not> occurs_at ''x-{json(a,{json(b'' '')}'' endPos"
    by (simp only: str_find_None_iff)
  from unterminated_placeholder_stops_scan [OF available opener unterminated]
    available opener no_closer
  show ?thesis by blast
qed


section \<open>No document, no change\<close>

text \<open>
  Claim C7.  When no JSON root is available, because the command tag is none of
  \<open>json\<close>, \<open>json_source\<close>, \<open>json_file\<close>, \<open>json_file_source\<close>, or the inline text does
  not parse, or the file does not load, \<open>replaceJsonPlaceholder\<close> returns its argument
  unchanged, whatever placeholders the argument holds.
\<close>

theorem unavailable_document_returns_input:
  assumes "commandName \<notin> set [''json'', ''json_source'', ''json_file'', ''json_file_source'']
         \<or> (commandName \<in> set [''json'', ''json_source'']
            \<and> json_loads (c_str jsonPathOrString) = None)
         \<or> (commandName \<in> set [''json_file'', ''json_file_source'']
            \<and> json_load_file (c_str jsonPathOrString) = None)"
  shows "replaceJsonPlaceholder json_loads json_load_file arg commandName jsonPathOrString = Some (Inr arg)"
proof -
  from assms have "loadJsonDict json_loads json_load_file commandName jsonPathOrString = None"
    by (auto simp: loadJsonDict_def stringToJson_def)
  then show ?thesis by (simp add: replaceJsonPlaceholder_def scanPlaceholders_def)
qed

theorem unavailable_document_returns_input_witness:
  "replaceJsonPlaceholder (holds_document doc_a_x) (holds_document doc_a_x) ''{f(a)}'' ''f'' [] = Some (Inr ''{f(a)}'')
   \<and> replaceJsonPlaceholder no_document (holds_document doc_a_x) ''{json(a)}'' ''json'' ''{'' = Some (Inr ''{json(a)}'')
   \<and> replaceJsonPlaceholder (holds_document doc_a_x) no_document ''{json_file(a)}'' ''json_file'' ''/missing.json''
       = Some (Inr ''{json_file(a)}'')"
proof -
  have "replaceJsonPlaceholder (holds_document doc_a_x) (holds_document doc_a_x) ''{f(a)}'' ''f'' [] = Some (Inr ''{f(a)}'')"
    by (rule unavailable_document_returns_input) (simp add: no_document_def)
  moreover
  have "replaceJsonPlaceholder no_document (holds_document doc_a_x) ''{json(a)}'' ''json'' ''{'' = Some (Inr ''{json(a)}'')"
    by (rule unavailable_document_returns_input) (simp add: no_document_def)
  moreover
  have "replaceJsonPlaceholder (holds_document doc_a_x) no_document ''{json_file(a)}'' ''json_file'' ''/missing.json''
       = Some (Inr ''{json_file(a)}'')"
    by (rule unavailable_document_returns_input) (simp add: no_document_def)
  ultimately show ?thesis by blast
qed


section \<open>No opener, no change\<close>

text \<open>
  Claim C9.  An argument in which the opener \<open>{command(\<close> occurs nowhere is returned
  unchanged, with or without a document.  So when a first run returns a string with no
  opener left in it, a second run on that string, whatever the document then is, returns
  it as it is.
\<close>

theorem no_opener_returns_input:
  "((\<forall>i. \<not> occurs_at arg (searchString commandName) i) \<longrightarrow>
      replaceJsonPlaceholder json_loads json_load_file arg commandName jsonPathOrString
      = Some (Inr arg))
   \<and> (replaceJsonPlaceholder json_loads json_load_file arg commandName jsonPathOrString
        = Some (Inr resolved)
      \<and> (\<forall>i. \<not> occurs_at resolved (searchString commandName) i) \<longrightarrow>
      replaceJsonPlaceholder json_loads' json_load_file' resolved commandName jsonPathOrString'
      = Some (Inr resolved))"
  by (simp add: replaceJsonPlaceholder_def no_opener_unchanged)

theorem no_opener_returns_input_witness:
  "(\<forall>i. \<not> occurs_at ''x and {f(a)}'' (searchString ''json'') i)
   \<and> replaceJsonPlaceholder (holds_document doc_a_x) no_document ''x and {f(a)}'' ''json'' []
       = Some (Inr ''x and {f(a)}'')
   \<and> replaceJsonPlaceholder (holds_document doc_a_x) no_document ''{json(a)}'' ''json'' []
       = Some (Inr ''x'')
   \<and> (\<forall>i. \<not> occurs_at ''x'' (searchString ''json'') i)
   \<and> replaceJsonPlaceholder (holds_document doc_a_x) no_document ''x'' ''json'' []
       = Some (Inr ''x'')"
proof -
  have "str_find ''x and {f(a)}'' (searchString ''json'') 0 = None"
    by (simp add: string_eval)
  then have none: "\<forall>i. \<not> occurs_at ''x and {f(a)}'' (searchString ''json'') i"
    by (simp add: str_find_None_iff)
  have first: "replaceJsonPlaceholder (holds_document doc_a_x) no_document ''x and {f(a)}''
                 ''json'' [] = Some (Inr ''x and {f(a)}'')"
    using no_opener_returns_input
      [of "''x and {f(a)}''" "''json''" "holds_document doc_a_x" no_document "[]"] none
    by blast
  have once: "replaceJsonPlaceholder (holds_document doc_a_x) no_document ''{json(a)}'' ''json'' []
                = Some (Inr ''x'')"
    by (simp add: scan_eval provider_eval string_eval doc_eval)
  have "str_find ''x'' (searchString ''json'') 0 = None"
    by (simp add: string_eval)
  then have resolved: "\<forall>i. \<not> occurs_at ''x'' (searchString ''json'') i"
    by (simp add: str_find_None_iff)
  have twice: "replaceJsonPlaceholder (holds_document doc_a_x) no_document ''x'' ''json'' []
                = Some (Inr ''x'')"
    using no_opener_returns_input
      [of "''{json(a)}''" "''json''" "holds_document doc_a_x" no_document "[]" "''x''"
          "holds_document doc_a_x" no_document "[]"] once resolved
    by blast
  from none first once resolved twice show ?thesis by blast
qed


section \<open>getStringFromJson\<close>

text \<open>
  Claim C10.  \<open>getStringFromJson root key\<close> returns the character data of the value when
  \<open>root\<close> is an object that maps \<open>key\<close> to a JSON string; when the key is absent, the
  value is no string or \<open>root\<close> is no object, it returns the empty string; it never
  returns a null pointer.  The function only reads \<open>root\<close>: the three jansson accessors
  it calls are reads, and the model has no other access to the tree.
\<close>

theorem getStringFromJson_result:
  "(root = Some (JObject members) \<and> map_of members key = Some (JString text)
      \<longrightarrow> getStringFromJson root key = Some text)
   \<and> ((\<forall>text. json_object_get root key \<noteq> Some (JString text))
      \<longrightarrow> getStringFromJson root key = Some [])
   \<and> getStringFromJson root key \<noteq> None"
proof (cases "json_object_get root key")
  case None
  then show ?thesis by (auto simp: getStringFromJson_def)
next
  case (Some v)
  then show ?thesis by (cases v) (auto simp: getStringFromJson_def)
qed

theorem getStringFromJson_result_witness:
  "getStringFromJson (Some doc_numeric_key) ''0'' = Some ''zero''
   \<and> getStringFromJson (Some doc_numeric_key) ''a'' = Some []
   \<and> getStringFromJson (Some doc_numeric_key) ''b'' = Some []
   \<and> getStringFromJson None ''a'' = Some []"
proof -
  have "getStringFromJson (Some doc_numeric_key) ''0'' = Some ''zero''"
    using getStringFromJson_result [of "Some doc_numeric_key" "[(''0'', JString ''zero''), (''a'', JInteger 5)]" "''0''" "''zero''"]
    by (simp add: doc_numeric_key_def)
  moreover have "getStringFromJson (Some doc_numeric_key) ''a'' = Some []"
    using getStringFromJson_result [of "Some doc_numeric_key" "[]" "''a''" "[]"]
    by (simp add: doc_numeric_key_def)
  moreover have "getStringFromJson (Some doc_numeric_key) ''b'' = Some []"
    using getStringFromJson_result [of "Some doc_numeric_key" "[]" "''b''" "[]"]
    by (simp add: doc_numeric_key_def)
  moreover have "getStringFromJson None ''a'' = Some []"
    using getStringFromJson_result [of "None" "[]" "''a''" "[]"]
    by simp
  ultimately show ?thesis by blast
qed


section \<open>The scan never rewrites what lies before its position\<close>

lemma extractKeys_done:
  "endPos \<le> nextPos \<Longrightarrow> extractKeys replacement nextPos endPos = []"
  by (subst extractKeys.simps) simp

lemma substituteValue_prefix:
  "start \<le> length replacement \<Longrightarrow>
   take start (substituteValue replacement start endPos validValue value) = take start replacement"
  by (simp add: substituteValue_def str_replace_def split: option.splits)

lemma take_of_longer_prefix:
  assumes "take n xs = take n ys" and "m \<le> n"
  shows "take m xs = take m ys"
proof -
  have "take m xs = take m (take n xs)" using assms(2) by (simp add: min_def)
  also have "\<dots> = take m (take n ys)" using assms(1) by simp
  also have "\<dots> = take m ys" using assms(2) by (simp add: min_def)
  finally show ?thesis .
qed

lemma scanLoop_keeps_prefix_aux:
  assumes returns: "scanLoop replacement startPos commandName jsonDict = Some result"
  shows "\<forall>out. result = Inr out \<longrightarrow>
     (case startPos of None \<Rightarrow> out = replacement
      | Some start \<Rightarrow> take start out = take start replacement)"
proof -
  let ?P = "\<lambda>(r :: string) (sp :: nat option) (c :: string) (j :: json) (y :: exception + string).
     \<forall>out. y = Inr out \<longrightarrow>
       (case sp of None \<Rightarrow> out = r | Some start \<Rightarrow> take start out = take start r)"
  have step: "?P r sp c j y"
    if IH: "\<And>r sp c j y. f r sp c j = Some y \<Longrightarrow> ?P r sp c j y"
      and body:
        "(case sp of
            None \<Rightarrow> Some (Inr r)
          | Some start \<Rightarrow>
             (case str_find r '')}'' start of
                None \<Rightarrow> Some (Inr r)
              | Some endPos \<Rightarrow>
                 (case descend (Some j) (extractKeys r (start + length (searchString c)) endPos) of
                    Inl thrown \<Rightarrow> Some (Inl thrown)
                  | Inr found \<Rightarrow>
                     f (substituteValue r start endPos (fst found) (snd found))
                       (str_find (substituteValue r start endPos (fst found) (snd found))
                          (searchString c) endPos)
                       c j))) = Some y"
    for f r sp c j y
  proof (cases sp)
    case None
    with body show ?thesis by auto
  next
    case (Some start)
    note start = this
    show ?thesis
    proof (cases "str_find r '')}'' start")
      case None
      with body start show ?thesis by auto
    next
      case (Some endPos)
      note closer = this
      from str_find_Some(1,2) [OF closer] have order: "start \<le> endPos" "endPos \<le> length r"
        by (simp_all add: occurs_at_def)
      show ?thesis
      proof (cases "descend (Some j) (extractKeys r (start + length (searchString c)) endPos)")
        case (Inl thrown)
        with body start closer show ?thesis by auto
      next
        case (Inr found)
        define r' where "r' = substituteValue r start endPos (fst found) (snd found)"
        define sp' where "sp' = str_find r' (searchString c) endPos"
        from body start closer Inr have run: "f r' sp' c j = Some y"
          by (simp add: r'_def sp'_def)
        have prefix: "take start r' = take start r"
          unfolding r'_def using order by (intro substituteValue_prefix) simp
        show ?thesis
        proof (intro allI impI)
          fix out
          assume out: "y = Inr out"
          with IH [OF run]
          have hyp: "case sp' of None \<Rightarrow> out = r' | Some start' \<Rightarrow> take start' out = take start' r'"
            by simp
          have "take start out = take start r"
          proof (cases sp')
            case None
            with hyp prefix show ?thesis by simp
          next
            case (Some start')
            with hyp have eq: "take start' out = take start' r'" by simp
            from Some have "endPos \<le> start'"
              unfolding sp'_def by (rule str_find_Some(1))
            with order have "start \<le> start'" by simp
            with eq have "take start out = take start r'"
              by (rule take_of_longer_prefix)
            with prefix show ?thesis by simp
          qed
          with start show "case sp of None \<Rightarrow> out = r | Some start \<Rightarrow> take start out = take start r"
            by simp
        qed
      qed
    qed
  qed
  show ?thesis
    by (rule scanLoop.raw_induct [where P = ?P, OF step returns])
qed

lemma scanLoop_keeps_prefix:
  "scanLoop replacement (Some start) commandName jsonDict = Some (Inr out)
   \<Longrightarrow> take start out = take start replacement"
  by (drule scanLoop_keeps_prefix_aux) simp

lemma scanLoop_at_end:
  "scanLoop replacement None commandName jsonDict = Some (Inr replacement)"
  by (subst scanLoop.simps) simp

lemma opener_behind_closer:
  assumes closer: "occurs_at replacement '')}'' endPos"
    and opener: "occurs_at replacement (searchString commandName) start'"
    and ge: "endPos \<le> start'"
  shows "endPos + 2 \<le> start'"
proof -
  from occurs_at_nth [OF closer, of 0] occurs_at_nth [OF closer, of 1]
  have c: "replacement ! endPos = CHR '')''" "replacement ! (endPos + 1) = CHR ''}''"
    by simp_all
  from occurs_at_nth [OF opener, of 0]
  have o: "replacement ! start' = CHR ''{''"
    by (simp add: searchString_def)
  from c o have "start' \<noteq> endPos" "start' \<noteq> endPos + 1" by auto
  with ge show ?thesis by simp
qed

lemma placeholder_kept_in_result:
  assumes closer: "str_find replacement '')}'' start = Some endPos"
    and run: "scanLoop replacement (str_find replacement (searchString commandName) endPos)
                commandName jsonDict = Some (Inr out)"
  shows "take (endPos + 2) out = take (endPos + 2) replacement"
proof (cases "str_find replacement (searchString commandName) endPos")
  case None
  with run show ?thesis by (simp add: scanLoop_at_end)
next
  case (Some start')
  have behind: "endPos + 2 \<le> start'"
    using str_find_Some(2) [OF closer] str_find_Some(2) [OF Some] str_find_Some(1) [OF Some]
    by (rule opener_behind_closer)
  from run Some
  have "scanLoop replacement (Some start') commandName jsonDict = Some (Inr out)"
    by simp
  then have "take start' out = take start' replacement"
    by (rule scanLoop_keeps_prefix)
  then show ?thesis using behind by (rule take_of_longer_prefix)
qed


section \<open>The descent through the document\<close>

lemma descend_append:
  "descend root (before @ after) =
     (case descend root before of
        Inl thrown \<Rightarrow> Inl thrown
      | Inr found \<Rightarrow> if fst found then descend (snd found) after else Inr found)"
proof (induction before arbitrary: root)
  case Nil
  show ?case by simp
next
  case (Cons keyIndex before)
  show ?case
    by (simp add: Cons.IH split: sum.splits)
qed

lemma placeholder_kept:
  assumes "str_find replacement '')}'' start = Some endPos"
    and "descend (Some jsonDict)
           (extractKeys replacement (start + length (searchString commandName)) endPos) = Inr found"
    and "substituteValue replacement start endPos (fst found) (snd found) = replacement"
  shows "scanLoop replacement (Some start) commandName jsonDict
         = scanLoop replacement (str_find replacement (searchString commandName) endPos)
             commandName jsonDict"
  using assms by (subst scanLoop.simps) simp


text \<open>
  Claim C8.  How a segment is read depends on the value the descent stands at, not on the
  segment: at an object the segment (as the C string handed to \<open>json_object_get\<close>) is
  a key, whatever its text, numeric text included; \<open>std::stoul\<close> is applied only at an
  array; at any other value, \<open>nullptr\<close> included, a remaining segment makes \<open>validValue\<close>
  false, so the whole path is unresolved, the string is not rewritten, the scan moves on
  to the next opener, and a run that returns returns the placeholder where it was.
\<close>

theorem segment_read_by_current_variant:
  "descend (Some (JObject members)) (keyIndex # rest)
     = descend (map_of members (c_str keyIndex)) rest
   \<and> descend (Some (JArray elements)) (keyIndex # rest)
     = (case stoul keyIndex of
          Inl thrown \<Rightarrow> Inl thrown
        | Inr index \<Rightarrow> descend (json_array_get (Some (JArray elements)) index) rest)
   \<and> (\<not> json_is_array value \<longrightarrow>
        descend value (keyIndex # rest)
        = (if json_is_object value then descend (json_object_get value (c_str keyIndex)) rest
           else Inr (False, value)))
   \<and> (descend root before = Inr (True, value) \<and> \<not> json_is_object value \<and> \<not> json_is_array value \<longrightarrow>
        descend root (before @ keyIndex # rest) = Inr (False, value))
   \<and> (str_find replacement '')}'' start = Some endPos
        \<and> extractKeys replacement (start + length (searchString commandName)) endPos
            = before @ keyIndex # rest
        \<and> descend (Some jsonDict) before = Inr (True, value)
        \<and> \<not> json_is_object value \<and> \<not> json_is_array value \<longrightarrow>
        scanLoop replacement (Some start) commandName jsonDict
        = scanLoop replacement (str_find replacement (searchString commandName) endPos)
            commandName jsonDict
        \<and> (scanLoop replacement (Some start) commandName jsonDict = Some (Inr out) \<longrightarrow>
             take (endPos + 2) out = take (endPos + 2) replacement))"
proof (intro conjI impI)
  show "descend (Some (JObject members)) (keyIndex # rest)
        = descend (map_of members (c_str keyIndex)) rest"
    by simp
  show "descend (Some (JArray elements)) (keyIndex # rest)
        = (case stoul keyIndex of
             Inl thrown \<Rightarrow> Inl thrown
           | Inr index \<Rightarrow> descend (json_array_get (Some (JArray elements)) index) rest)"
    by simp
  show "descend value (keyIndex # rest)
        = (if json_is_object value then descend (json_object_get value (c_str keyIndex)) rest
           else Inr (False, value))"
    if "\<not> json_is_array value"
    using that by simp
  show "descend root (before @ keyIndex # rest) = Inr (False, value)"
    if "descend root before = Inr (True, value) \<and> \<not> json_is_object value \<and> \<not> json_is_array value"
    using that by (simp add: descend_append)
  assume hyp: "str_find replacement '')}'' start = Some endPos
        \<and> extractKeys replacement (start + length (searchString commandName)) endPos
            = before @ keyIndex # rest
        \<and> descend (Some jsonDict) before = Inr (True, value)
        \<and> \<not> json_is_object value \<and> \<not> json_is_array value"
  show moves_on: "scanLoop replacement (Some start) commandName jsonDict
        = scanLoop replacement (str_find replacement (searchString commandName) endPos)
            commandName jsonDict"
  proof -
    from hyp have closer: "str_find replacement '')}'' start = Some endPos"
      by simp
    from hyp have invalid: "descend (Some jsonDict)
        (extractKeys replacement (start + length (searchString commandName)) endPos)
        = Inr (False, value)"
      by (simp add: descend_append)
    have kept: "substituteValue replacement start endPos (fst (False, value)) (snd (False, value))
        = replacement"
      by (simp add: substituteValue_def)
    from closer invalid kept show ?thesis by (rule placeholder_kept)
  qed
  show "take (endPos + 2) out = take (endPos + 2) replacement"
    if "scanLoop replacement (Some start) commandName jsonDict = Some (Inr out)"
  proof -
    from hyp have "str_find replacement '')}'' start = Some endPos"
      by simp
    moreover from that moves_on
    have "scanLoop replacement (str_find replacement (searchString commandName) endPos)
            commandName jsonDict = Some (Inr out)"
      by simp
    ultimately show ?thesis by (rule placeholder_kept_in_result)
  qed
qed

theorem segment_read_by_current_variant_witness:
  "stoul ''0'' = Inr 0
   \<and> descend (Some doc_numeric_key) [''0''] = Inr (True, Some (JString ''zero''))
   \<and> descend (Some (JArray [JString ''s''])) [''0''] = Inr (True, Some (JString ''s''))
   \<and> descend (Some (JInteger 5)) [''0''] = Inr (False, Some (JInteger 5))
   \<and> descend (Some doc_numeric_key) [''a'', ''0''] = Inr (False, Some (JInteger 5))
   \<and> scanLoop ''{json(a,0)}'' (Some 0) ''json'' doc_numeric_key = Some (Inr ''{json(a,0)}'')"
proof -
  note C8 = segment_read_by_current_variant
    [of "[(''0'', JString ''zero''), (''a'', JInteger 5)]" "''0''" "[]" "[JString ''s'']"
        "Some (JInteger 5)" "Some doc_numeric_key" "[''a'']" "''{json(a,0)}''" 0 9 "''json''"
        doc_numeric_key "''{json(a,0)}''"]
  have numeric: "stoul ''0'' = Inr 0"
    by (simp add: stoul_eval c_str_def)
  have key: "descend (Some doc_numeric_key) [''0''] = Inr (True, Some (JString ''zero''))"
    using C8 by (simp add: doc_eval c_str_def)
  have index: "descend (Some (JArray [JString ''s''])) [''0''] = Inr (True, Some (JString ''s''))"
    using C8 numeric by simp
  have scalar: "descend (Some (JInteger 5)) [''0''] = Inr (False, Some (JInteger 5))"
    using C8 by simp
  have before: "descend (Some doc_numeric_key) [''a''] = Inr (True, Some (JInteger 5))"
    by (simp add: doc_eval c_str_def)
  have path: "descend (Some doc_numeric_key) [''a'', ''0''] = Inr (False, Some (JInteger 5))"
    using C8 before by simp
  have closer: "str_find ''{json(a,0)}'' '')}'' 0 = Some 9"
    by (simp add: string_eval)
  have keys: "extractKeys ''{json(a,0)}'' (0 + length (searchString ''json'')) 9 = [''a''] @ ''0'' # []"
    by (simp add: string_eval extractKeys.simps)
  have next_opener: "str_find ''{json(a,0)}'' (searchString ''json'') 9 = None"
    by (simp add: string_eval)
  have "scanLoop ''{json(a,0)}'' (Some 0) ''json'' doc_numeric_key
        = scanLoop ''{json(a,0)}'' (str_find ''{json(a,0)}'' (searchString ''json'') 9)
            ''json'' doc_numeric_key"
    using C8 closer keys before by simp
  then have scan: "scanLoop ''{json(a,0)}'' (Some 0) ''json'' doc_numeric_key = Some (Inr ''{json(a,0)}'')"
    by (simp add: next_opener scanLoop.simps)
  from numeric key index scalar path scan show ?thesis by blast
qed


section \<open>Where the scan resumes after a substitution\<close>

text \<open>
  Claim C1 says the scan resumes behind the end of the substituted text.  Line 187 resumes
  at \<open>endPos\<close>, the position the closer had before the string was rewritten.  With a
  value shorter than its placeholder the text between the end of the value and \<open>endPos\<close>
  is skipped: in \<open>{json(a)}-{json(a)}\<close> with \<open>a\<close> resolving to \<open>x\<close> the second
  placeholder is never seen.  With a value longer than its placeholder \<open>endPos\<close> lies
  inside the substituted text: an opener found there is matched and replaced.
\<close>

theorem stale_scan_position:
  "replaceJsonPlaceholder (holds_document doc_a_x) no_document ''{json(a)}-{json(a)}'' ''json'' []
     = Some (Inr ''x-{json(a)}'')
   \<and> replaceJsonPlaceholder (holds_document doc_nested) no_document ''{json(a)}'' ''json'' []
     = Some (Inr ''0123456789B'')"
  by (simp add: scan_eval provider_eval string_eval doc_eval)

text \<open>
  Resuming inside the substituted text can go on for ever: when the value of \<open>a\<close> ends
  in the placeholder \<open>{json(a)}\<close> and that copy starts at or behind \<open>endPos\<close>, every
  pass finds it again, and the loop does not return.
\<close>

lemma loop_state_step:
  fixes pre :: string
  defines "r \<equiv> pre @ ''{json(a)}''"
  shows "str_find r '')}'' (length pre) = Some (length pre + 7)"
    and "extractKeys r (length pre + length (searchString ''json'')) (length pre + 7) = [''a'']"
    and "descend (Some doc_loop) [''a''] = Inr (True, Some (JString ''1234567{json(a)}''))"
    and "substituteValue r (length pre) (length pre + 7) True (Some (JString ''1234567{json(a)}''))
         = (pre @ ''1234567'') @ ''{json(a)}''"
    and "str_find ((pre @ ''1234567'') @ ''{json(a)}'') (searchString ''json'') (length pre + 7)
         = Some (length (pre @ ''1234567''))"
proof -
  show "str_find r '')}'' (length pre) = Some (length pre + 7)"
    by (simp add: r_def str_find_def)
  show "extractKeys r (length pre + length (searchString ''json'')) (length pre + 7) = [''a'']"
  proof -
    have len: "length (searchString ''json'') = 6"
      by (simp add: searchString_def)
    have comma: "str_find r '','' (length pre + 6) = None"
      by (simp add: r_def str_find_def)
    have piece: "substr r (length pre + 6) (Suc 0) = ''a''"
      by (simp add: r_def substr_def)
    show ?thesis
      unfolding len by (subst extractKeys.simps) (simp add: comma piece extractKeys_done)
  qed
  show "descend (Some doc_loop) [''a''] = Inr (True, Some (JString ''1234567{json(a)}''))"
    by (simp add: doc_loop_def c_str_def)
  show "substituteValue r (length pre) (length pre + 7) True (Some (JString ''1234567{json(a)}''))
         = (pre @ ''1234567'') @ ''{json(a)}''"
    by (simp add: r_def substituteValue_def str_replace_def)
  show "str_find ((pre @ ''1234567'') @ ''{json(a)}'') (searchString ''json'') (length pre + 7)
         = Some (length (pre @ ''1234567''))"
    by (simp add: str_find_def searchString_def)
qed

lemma scan_can_run_forever_aux:
  assumes returns: "scanLoop replacement startPos commandName jsonDict = Some result"
  shows "\<not> (\<exists>pre. replacement = pre @ ''{json(a)}'' \<and> startPos = Some (length pre)
              \<and> commandName = ''json'' \<and> jsonDict = doc_loop)"
proof -
  let ?P = "\<lambda>(r :: string) (sp :: nat option) (c :: string) (j :: json) (y :: exception + string).
     \<not> (\<exists>pre. r = pre @ ''{json(a)}'' \<and> sp = Some (length pre) \<and> c = ''json'' \<and> j = doc_loop)"
  have step: "?P r sp c j y"
    if IH: "\<And>r sp c j y. f r sp c j = Some y \<Longrightarrow> ?P r sp c j y"
      and body:
        "(case sp of
            None \<Rightarrow> Some (Inr r)
          | Some start \<Rightarrow>
             (case str_find r '')}'' start of
                None \<Rightarrow> Some (Inr r)
              | Some endPos \<Rightarrow>
                 (case descend (Some j) (extractKeys r (start + length (searchString c)) endPos) of
                    Inl thrown \<Rightarrow> Some (Inl thrown)
                  | Inr found \<Rightarrow>
                     f (substituteValue r start endPos (fst found) (snd found))
                       (str_find (substituteValue r start endPos (fst found) (snd found))
                          (searchString c) endPos)
                       c j))) = Some y"
    for f r sp c j y
  proof
    assume "\<exists>pre. r = pre @ ''{json(a)}'' \<and> sp = Some (length pre) \<and> c = ''json'' \<and> j = doc_loop"
    then obtain pre where state: "r = pre @ ''{json(a)}''" "sp = Some (length pre)"
      "c = ''json''" "j = doc_loop"
      by blast
    from body have "f ((pre @ ''1234567'') @ ''{json(a)}'') (Some (length (pre @ ''1234567'')))
                      ''json'' doc_loop = Some y"
      unfolding state by (simp only: loop_state_step option.case sum.case fst_conv snd_conv)
    from IH [OF this] show False by blast
  qed
  show ?thesis
    by (rule scanLoop.raw_induct [where P = ?P, OF step returns])
qed

lemma scan_can_run_forever:
  "replaceJsonPlaceholder (holds_document doc_loop) no_document ''{json(a)}'' ''json'' [] = None"
proof (cases "scanLoop ''{json(a)}'' (Some 0) ''json'' doc_loop")
  case None
  then show ?thesis
    by (simp add: replaceJsonPlaceholder_def scanPlaceholders_def provider_eval string_eval)
next
  case (Some result)
  from scan_can_run_forever_aux [OF Some] have False by simp
  then show ?thesis ..
qed


section \<open>A segment that is no index\<close>

text \<open>
  Claim C2 says a segment that is no unsigned integer, applied to an array, leaves the
  placeholder alone and that no exception leaves the function.  Line 173 calls
  \<open>std::stoul\<close> with nothing to catch what it throws: \<open>std::invalid_argument\<close> for a
  segment without a digit, \<open>std::out_of_range\<close> for one beyond \<open>ULONG_MAX\<close>.  An index
  that parses and is out of range does leave the placeholder alone.
\<close>

theorem stoul_exception_escapes:
  "replaceJsonPlaceholder (holds_document doc_a_strings) no_document ''{json(a,x)}'' ''json'' []
     = Some (Inl Invalid_argument)
   \<and> replaceJsonPlaceholder (holds_document doc_a_strings) no_document
       ''{json(a,18446744073709551616)}'' ''json'' []
     = Some (Inl Out_of_range)
   \<and> replaceJsonPlaceholder (holds_document doc_a_strings) no_document ''{json(a,7)}'' ''json'' []
     = Some (Inr ''{json(a,7)}'')"
  by (simp add: scan_eval provider_eval string_eval stoul_eval doc_eval)


section \<open>The array example\<close>

text \<open>
  Claim C3 as stated: for the document \<open>{"a":[10,20,30]}\<close> and the command \<open>f\<close> the
  input \<open>{f(a,1)}\<close> becomes \<open>20\<close>.  It does not, neither in the scan run on that
  document nor in the whole function.
\<close>

theorem array_number_example_counterexample:
  "scanPlaceholders ''{f(a,1)}'' ''f'' (Some doc_a_numbers) \<noteq> Some (Inr ''20'')
   \<and> replaceJsonPlaceholder (holds_document doc_a_numbers) (holds_document doc_a_numbers)
       ''{f(a,1)}'' ''f'' [] \<noteq> Some (Inr ''20'')"
  by (simp add: scan_eval provider_eval string_eval stoul_eval doc_eval)


text \<open>
  Claim C3, amended.  For the document \<open>{"a":[10,20,30]}\<close> and the command \<open>f\<close> the
  input \<open>{f(a,1)}\<close> is returned unchanged: the element at array index 1 is the number
  20, only a JSON string is substituted, and under the tag \<open>f\<close> no document is loaded in
  the first place; the same holds for \<open>{json(a,1)}\<close> under the tag \<open>json\<close>.  For the
  document \<open>{"a":["10","20","30"]}\<close>, whose elements are JSON strings, and the command
  \<open>json\<close> the input \<open>{json(a,1)}\<close> becomes \<open>20\<close>: the element at array index 1
  replaces the placeholder.
\<close>

theorem array_string_example:
  "scanPlaceholders ''{f(a,1)}'' ''f'' (Some doc_a_numbers) = Some (Inr ''{f(a,1)}'')
   \<and> replaceJsonPlaceholder json_loads json_load_file ''{f(a,1)}'' ''f'' jsonPathOrString
     = Some (Inr ''{f(a,1)}'')
   \<and> replaceJsonPlaceholder (holds_document doc_a_numbers) no_document ''{json(a,1)}'' ''json'' []
     = Some (Inr ''{json(a,1)}'')
   \<and> replaceJsonPlaceholder (holds_document doc_a_strings) no_document ''{json(a,1)}'' ''json'' []
     = Some (Inr ''20'')"
  by (simp add: scan_eval provider_eval string_eval stoul_eval doc_eval)


section \<open>A comma behind the closer\<close>

text \<open>
  Claim C4 says no character at or beyond the closer becomes part of a segment, whatever
  commas follow.  Line 161 searches the comma in the whole string: when the last segment
  has no comma before the closer and a comma follows later, the segment runs up to that
  comma, closer included.  In \<open>{json(a)}, b\<close> the one segment is \<open>a)}\<close>, the key is not
  found and the placeholder stays, where \<open>{json(a)} b\<close> is resolved.
\<close>

theorem comma_behind_closer_joins_segment:
  "extractKeys ''{json(a)}, b'' 6 7 = [''a)}'']
   \<and> replaceJsonPlaceholder (holds_document doc_a_x) no_document ''{json(a)}, b'' ''json'' []
     = Some (Inr ''{json(a)}, b'')
   \<and> replaceJsonPlaceholder (holds_document doc_a_x) no_document ''{json(a)} b'' ''json'' []
     = Some (Inr ''x b'')"
  by (simp add: scan_eval provider_eval string_eval doc_eval)


section \<open>A path that resolves to no string\<close>

lemma collected_keys_without_string:
  assumes closer: "str_find replacement '')}'' start = Some endPos"
    and found: "descend (Some jsonDict)
                  (extractKeys replacement (start + length (searchString commandName)) endPos)
                = Inr (validValue, value)"
    and no_string: "\<not> json_is_string value"
  shows "scanLoop replacement (Some start) commandName jsonDict
         = scanLoop replacement (str_find replacement (searchString commandName) endPos)
             commandName jsonDict"
    and "scanLoop replacement (Some start) commandName jsonDict = Some (Inr out)
         \<Longrightarrow> take (endPos + 2) out = take (endPos + 2) replacement"
proof -
  from no_string
  have "substituteValue replacement start endPos (fst (validValue, value)) (snd (validValue, value))
        = replacement"
    by (simp add: substituteValue_def)
  with closer found
  show moves_on: "scanLoop replacement (Some start) commandName jsonDict
         = scanLoop replacement (str_find replacement (searchString commandName) endPos)
             commandName jsonDict"
    by (rule placeholder_kept)
  show "take (endPos + 2) out = take (endPos + 2) replacement"
    if "scanLoop replacement (Some start) commandName jsonDict = Some (Inr out)"
  proof -
    from that moves_on
    have "scanLoop replacement (str_find replacement (searchString commandName) endPos)
            commandName jsonDict = Some (Inr out)"
      by simp
    with closer show ?thesis by (rule placeholder_kept_in_result)
  qed
qed

text \<open>
  Claim C5 says a placeholder whose path resolves to a value that is no string stays as it
  is.  The guard of line 181 does that for the keys the inner loop collected
  (\<open>collected_keys_without_string\<close>), but those are not always the path written in the
  placeholder: in
  \<open>{json(a)},\<close> the path \<open>a\<close> resolves to the number 5 of \<open>{"a":5,"a)}":"s"}\<close>, the
  key collected is \<open>a)}\<close>, and the placeholder is replaced by \<open>s\<close>.
\<close>

theorem number_placeholder_replaced:
  "descend (Some doc_odd_key) [''a''] = Inr (True, Some (JInteger 5))
   \<and> replaceJsonPlaceholder (holds_document doc_odd_key) no_document ''{json(a)}'' ''json'' []
     = Some (Inr ''{json(a)}'')
   \<and> replaceJsonPlaceholder (holds_document doc_odd_key) no_document ''{json(a)},'' ''json'' []
     = Some (Inr ''s,'')"
  by (simp add: scan_eval provider_eval string_eval doc_eval)

end
